theory Spec2Isabelle
  imports Main
begin

section \<open>The circuit breaker (server/circuit-breaker.ts)\<close>

text \<open>
  JavaScript numbers are modelled as \<open>int\<close>: counters, thresholds, durations and the
  readings of \<open>Date.now()\<close> are integers in every run of the program. A value of type
  \<open>number | null\<close> is an \<open>int option\<close>, with \<open>None\<close> for \<open>null\<close>. A thrown \<open>Error\<close> is
  represented by its message.
\<close>

datatype CircuitState = CLOSED | OPEN | HALF_OPEN

datatype error = Error string

record CircuitBreakerOptions =
  failureThreshold :: int
  successThreshold :: int
  timeout :: int
  resetTimeout :: int

record CircuitStats =
  failures :: int
  successes :: int
  lastFailureTime :: "int option"
  state :: CircuitState

record CircuitBreaker =
  options :: CircuitBreakerOptions
  stats :: CircuitStats

text \<open>\<open>Partial<CircuitBreakerOptions>\<close>: every field may be missing.\<close>

record PartialOptions =
  failureThreshold_opt :: "int option"
  successThreshold_opt :: "int option"
  timeout_opt :: "int option"
  resetTimeout_opt :: "int option"

text \<open>\<open>x || d\<close> on a number that may be undefined: \<open>undefined\<close> and \<open>0\<close> are falsy.\<close>

definition or_default :: "int option \<Rightarrow> int \<Rightarrow> int" where
  "or_default x d = (case x of None \<Rightarrow> d | Some n \<Rightarrow> if n = 0 then d else n)"

definition initial_stats :: CircuitStats where
  "initial_stats = \<lparr>failures = 0, successes = 0, lastFailureTime = None, state = CLOSED\<rparr>"

definition new_CircuitBreaker :: "PartialOptions \<Rightarrow> CircuitBreaker" where
  "new_CircuitBreaker opts =
     \<lparr>options = \<lparr>failureThreshold = or_default (failureThreshold_opt opts) 5,
                  successThreshold = or_default (successThreshold_opt opts) 2,
                  timeout = or_default (timeout_opt opts) 30000,
                  resetTimeout = or_default (resetTimeout_opt opts) 60000\<rparr>,
      stats = initial_stats\<rparr>"

definition open_error :: error where
  "open_error = Error ''Circuit breaker is OPEN - service unavailable''"

definition timeout_error :: error where
  "timeout_error = Error ''Circuit breaker timeout''"

text \<open>
  \<open>shouldAttemptReset\<close>: the test \<open>!this.stats.lastFailureTime\<close> holds for \<open>null\<close> and
  for the number \<open>0\<close>.
\<close>

definition shouldAttemptReset :: "CircuitBreaker \<Rightarrow> int \<Rightarrow> bool" where
  "shouldAttemptReset b now =
     (case lastFailureTime (stats b) of
        None \<Rightarrow> True
      | Some t \<Rightarrow> if t = 0 then True else now - t \<ge> resetTimeout (options b))"

definition reset :: "CircuitBreaker \<Rightarrow> CircuitBreaker" where
  "reset b = b\<lparr>stats := \<lparr>failures = 0, successes = 0, lastFailureTime = None, state = CLOSED\<rparr>\<rparr>"

definition onSuccess :: "CircuitBreaker \<Rightarrow> CircuitBreaker" where
  "onSuccess b =
     (if state (stats b) = HALF_OPEN then
        (let b1 = b\<lparr>stats := (stats b)\<lparr>successes := successes (stats b) + 1\<rparr>\<rparr>
         in if successes (stats b1) \<ge> successThreshold (options b1) then reset b1 else b1)
      else b\<lparr>stats := (stats b)\<lparr>failures := 0\<rparr>\<rparr>)"

definition onFailure :: "CircuitBreaker \<Rightarrow> int \<Rightarrow> CircuitBreaker" where
  "onFailure b now =
     (let b1 = b\<lparr>stats := (stats b)\<lparr>failures := failures (stats b) + 1,
                                     lastFailureTime := Some now\<rparr>\<rparr>
      in if state (stats b1) = HALF_OPEN then
           b1\<lparr>stats := (stats b1)\<lparr>state := OPEN, successes := 0\<rparr>\<rparr>
         else if failures (stats b1) \<ge> failureThreshold (options b1) then
           b1\<lparr>stats := (stats b1)\<lparr>state := OPEN\<rparr>\<rparr>
         else b1)"

definition getState :: "CircuitBreaker \<Rightarrow> CircuitState" where
  "getState b = state (stats b)"

definition getStats :: "CircuitBreaker \<Rightarrow> CircuitStats" where
  "getStats b = stats b"

definition forceOpen :: "CircuitBreaker \<Rightarrow> int \<Rightarrow> CircuitBreaker" where
  "forceOpen b now = b\<lparr>stats := (stats b)\<lparr>state := OPEN, lastFailureTime := Some now\<rparr>\<rparr>"

definition forceClose :: "CircuitBreaker \<Rightarrow> CircuitBreaker" where
  "forceClose b = reset b"

subsection \<open>The timeout race of \<open>withTimeout\<close>\<close>

text \<open>
  One call of \<open>withTimeout\<close> owns a promise and a timer handle. The executor of the
  promise arms the timer with \<open>setTimeout(..., this.options.timeout)\<close> and then calls
  \<open>fn()\<close>. Three callbacks act on the promise and the timer afterwards: the timer
  callback, and the \<open>then\<close> and \<open>catch\<close> callbacks attached to the promise returned by
  \<open>fn()\<close>. When \<open>fn()\<close> throws instead of returning a promise, no callback is attached
  and the exception leaves the executor, which rejects the promise. A promise settles
  once: \<open>resolve\<close> and \<open>reject\<close> on a settled promise do nothing. \<open>clearTimeout\<close> on a
  timer that has fired does nothing.
\<close>

datatype timer = Armed | Fired | Cleared

datatype 'a promise = Pending | Fulfilled 'a | Rejected error

record 'a race =
  promise :: "'a promise"
  timer :: timer

definition resolve :: "'a \<Rightarrow> 'a race \<Rightarrow> 'a race" where
  "resolve v r = (if promise r = Pending then r\<lparr>promise := Fulfilled v\<rparr> else r)"

definition reject :: "error \<Rightarrow> 'a race \<Rightarrow> 'a race" where
  "reject e r = (if promise r = Pending then r\<lparr>promise := Rejected e\<rparr> else r)"

definition clearTimeout :: "'a race \<Rightarrow> 'a race" where
  "clearTimeout r = (if timer r = Armed then r\<lparr>timer := Cleared\<rparr> else r)"

text \<open>\<open>setTimeout(() => reject(new Error("Circuit breaker timeout")), timeout)\<close>\<close>

definition on_timer :: "'a race \<Rightarrow> 'a race" where
  "on_timer r = reject timeout_error (r\<lparr>timer := Fired\<rparr>)"

text \<open>\<open>.then((result) => { clearTimeout(timer); resolve(result); })\<close>\<close>

definition on_then :: "'a \<Rightarrow> 'a race \<Rightarrow> 'a race" where
  "on_then v r = resolve v (clearTimeout r)"

text \<open>\<open>.catch((error) => { clearTimeout(timer); reject(error); })\<close>\<close>

definition on_catch :: "error \<Rightarrow> 'a race \<Rightarrow> 'a race" where
  "on_catch e r = reject e (clearTimeout r)"

text \<open>An exception of \<open>fn()\<close> inside the executor: the promise is rejected, nothing else runs.\<close>

definition on_executor_throw :: "error \<Rightarrow> 'a race \<Rightarrow> 'a race" where
  "on_executor_throw e r = reject e r"

text \<open>
  What the wrapped operation does when it is invoked, on the clock of the event loop:
  it throws before returning a promise, or it returns a promise that settles \<open>d\<close>
  milliseconds after the call, or one that never settles.
\<close>

datatype 'a settle = Returns 'a | Throws error

datatype 'a schedule = ThrowsSync error | Settles int "'a settle" | Never

text \<open>
  The delay of a timer: Node's \<open>setTimeout\<close> takes a delay below 1 or above \<open>2^31 - 1\<close>
  for 1.
\<close>

definition setTimeout_delay :: "int \<Rightarrow> int" where
  "setTimeout_delay ms = (if 1 \<le> ms \<and> ms \<le> 2147483647 then ms else 1)"

text \<open>
  The order of the events of one race, for a timer armed with \<open>ms\<close>. Callbacks due at the
  same instant run in the order in which they were registered, and the timer is armed
  before \<open>fn\<close> is called: the operation is first when it settles before the delay has
  elapsed, otherwise the timer fires first and the operation settles later or never.
\<close>

datatype 'a order = FnThrows error | OpFirst "'a settle" | TimerFirst "'a settle option"

definition race_order :: "int \<Rightarrow> 'a schedule \<Rightarrow> 'a order" where
  "race_order ms sch =
     (case sch of
        ThrowsSync e \<Rightarrow> FnThrows e
      | Settles d s \<Rightarrow> if d < setTimeout_delay ms then OpFirst s else TimerFirst (Some s)
      | Never \<Rightarrow> TimerFirst None)"

definition race_start :: "'a race" where
  "race_start = \<lparr>promise = Pending, timer = Armed\<rparr>"

definition op_event :: "'a settle \<Rightarrow> 'a race \<Rightarrow> 'a race" where
  "op_event s r = (case s of Returns v \<Rightarrow> on_then v r | Throws e \<Rightarrow> on_catch e r)"

text \<open>Only an armed timer fires.\<close>

definition timer_event :: "'a race \<Rightarrow> 'a race" where
  "timer_event r = (if timer r = Armed then on_timer r else r)"

definition first_event :: "'a order \<Rightarrow> 'a race" where
  "first_event ord =
     (case ord of FnThrows e \<Rightarrow> on_executor_throw e race_start
                | OpFirst s \<Rightarrow> op_event s race_start
                | TimerFirst late \<Rightarrow> timer_event race_start)"

definition later_events :: "'a order \<Rightarrow> 'a race \<Rightarrow> 'a race" where
  "later_events ord r =
     (case ord of FnThrows e \<Rightarrow> timer_event r
                | OpFirst s \<Rightarrow> timer_event r
                | TimerFirst None \<Rightarrow> r
                | TimerFirst (Some s) \<Rightarrow> op_event s r)"

text \<open>
  The promise returned by \<open>withTimeout\<close>, as \<open>await\<close> sees it: after the first event of
  the race against a timer of \<open>this.options.timeout\<close>.
\<close>

definition withTimeout :: "CircuitBreaker \<Rightarrow> 'a schedule \<Rightarrow> 'a promise" where
  "withTimeout b sch = promise (first_event (race_order (timeout (options b)) sch))"

subsection \<open>\<open>execute\<close>\<close>

text \<open>
  The wrapped operation \<open>fn\<close> acts on the world outside the breaker (type \<open>'w\<close>): invoked
  in world \<open>w\<close> it leaves a world \<open>w'\<close> and its schedule. \<open>now\<close> is the clock
  read by \<open>shouldAttemptReset\<close> on entry, \<open>now'\<close> the clock read by \<open>onFailure\<close> when the
  awaited promise has settled. The result is \<open>None\<close> if the awaited promise never settles.
  Calls do not overlap: the breaker seen after the \<open>await\<close> is the one left by the entry check.
\<close>

definition attempt ::
  "CircuitBreaker \<Rightarrow> ('w \<Rightarrow> 'a schedule \<times> 'w) \<Rightarrow> int \<Rightarrow> 'w
     \<Rightarrow> ((error + 'a) \<times> CircuitBreaker \<times> 'w) option" where
  "attempt b fn now' w =
     (case fn w of (sch, w') \<Rightarrow>
        (case withTimeout b sch of
           Fulfilled v \<Rightarrow> Some (Inr v, onSuccess b, w')
         | Rejected e \<Rightarrow> Some (Inl e, onFailure b now', w')
         | Pending \<Rightarrow> None))"

definition execute ::
  "CircuitBreaker \<Rightarrow> int \<Rightarrow> ('w \<Rightarrow> 'a schedule \<times> 'w) \<Rightarrow> int \<Rightarrow> 'w
     \<Rightarrow> ((error + 'a) \<times> CircuitBreaker \<times> 'w) option" where
  "execute b now fn now' w =
     (if state (stats b) = OPEN then
        (if shouldAttemptReset b now then
           attempt (b\<lparr>stats := (stats b)\<lparr>state := HALF_OPEN\<rparr>\<rparr>) fn now' w
         else Some (Inl open_error, b, w))
      else attempt b fn now' w)"

text \<open>
  \<open>callExternalModelApi\<close>: the \<open>catch\<close> logs and returns the fallback. The breaker is the
  module's \<open>modelApiCircuitBreaker\<close>, passed here as the state \<open>b\<close>.
\<close>

definition modelApiCircuitBreaker :: CircuitBreaker where
  "modelApiCircuitBreaker =
     new_CircuitBreaker \<lparr>failureThreshold_opt = Some 3, successThreshold_opt = Some 2,
                         timeout_opt = Some 10000, resetTimeout_opt = Some 30000\<rparr>"

definition callExternalModelApi ::
  "CircuitBreaker \<Rightarrow> int \<Rightarrow> ('w \<Rightarrow> 'a schedule \<times> 'w) \<Rightarrow> 'a \<Rightarrow> int \<Rightarrow> 'w
     \<Rightarrow> ('a \<times> CircuitBreaker \<times> 'w) option" where
  "callExternalModelApi b now apiCall fallback now' w =
     (case execute b now apiCall now' w of
        None \<Rightarrow> None
      | Some (Inr v, b', w') \<Rightarrow> Some (v, b', w')
      | Some (Inl e, b', w') \<Rightarrow> Some (fallback, b', w'))"

text \<open>
  The synchronous prefix of \<open>execute\<close>, read off its first \<open>if\<close>: \<open>None\<close> when the call
  is rejected, otherwise the breaker with which the operation is invoked.
\<close>

definition admit :: "CircuitBreaker \<Rightarrow> int \<Rightarrow> CircuitBreaker option" where
  "admit b now =
     (if state (stats b) = OPEN then
        (if shouldAttemptReset b now then Some (b\<lparr>stats := (stats b)\<lparr>state := HALF_OPEN\<rparr>\<rparr>)
         else None)
      else Some b)"

text \<open>A sequence of calls, each run to completion before the next.\<close>

fun execute_all ::
  "CircuitBreaker \<Rightarrow> 'w \<Rightarrow> (int \<times> ('w \<Rightarrow> 'a schedule \<times> 'w) \<times> int) list
     \<Rightarrow> (CircuitBreaker \<times> 'w) option" where
  "execute_all b w [] = Some (b, w)"
| "execute_all b w ((now, fn, now') # cs) =
     (case execute b now fn now' w of
        None \<Rightarrow> None
      | Some (r, b', w') \<Rightarrow> execute_all b' w' cs)"

section \<open>The TTL cache (server/cache.ts)\<close>

text \<open>
  A JavaScript \<open>Map\<close> is a list of key-value pairs in insertion order, with one pair
  for each key. \<open>Map.set\<close> on a key that is present replaces the value in place, on a
  new key it appends; \<open>Map.delete\<close> returns whether the key was present. A stored value
  is any JavaScript value, \<open>null\<close> included: \<open>'v option\<close>, with \<open>None\<close> for \<open>null\<close>.
  \<open>get\<close> returns \<open>T | null\<close>, the same type. \<open>now\<close> is the reading of \<open>Date.now()\<close>.
  The regular-expression engine of the run time is a parameter \<open>re\<close>: \<open>re p\<close> is \<open>None\<close>
  when \<open>new RegExp(p)\<close> throws, otherwise the predicate \<open>regex.test\<close> (without flags
  it has no state).
\<close>

type_synonym ('k, 'v) Map = "('k \<times> 'v) list"

definition Map_get :: "('k, 'v) Map \<Rightarrow> 'k \<Rightarrow> 'v option" where
  "Map_get m k = map_of m k"

primrec Map_set :: "'k \<Rightarrow> 'v \<Rightarrow> ('k, 'v) Map \<Rightarrow> ('k, 'v) Map" where
  "Map_set k v [] = [(k, v)]"
| "Map_set k v (p # ps) = (if fst p = k then (k, v) # ps else p # Map_set k v ps)"

definition Map_delete :: "'k \<Rightarrow> ('k, 'v) Map \<Rightarrow> bool \<times> ('k, 'v) Map" where
  "Map_delete k m = (k \<in> set (map fst m), filter (\<lambda>p. fst p \<noteq> k) m)"

definition Map_keys :: "('k, 'v) Map \<Rightarrow> 'k list" where
  "Map_keys m = map fst m"

record 'v CacheEntry =
  data :: "'v option"
  expiresAt :: int

record 'v InMemoryCache =
  cache :: "(string, 'v CacheEntry) Map"
  cleanupInterval :: "nat option"

datatype exn = SyntaxError string

type_synonym RegExp = "string \<Rightarrow> (string \<Rightarrow> bool) option"

text \<open>The constructor arms the sweep with \<open>setInterval\<close>; \<open>handle\<close> is the timer it returns.\<close>

definition new_InMemoryCache :: "nat \<Rightarrow> 'v InMemoryCache" where
  "new_InMemoryCache handle = \<lparr>cache = [], cleanupInterval = Some handle\<rparr>"

text \<open>\<open>set(key, data, ttlSeconds)\<close>; the default \<open>ttlSeconds = 300\<close> is applied by \<open>call\<close> below.\<close>

definition set_cache :: "'v InMemoryCache \<Rightarrow> string \<Rightarrow> 'v option \<Rightarrow> int \<Rightarrow> int \<Rightarrow> 'v InMemoryCache" where
  "set_cache c key d ttlSeconds now =
     (let expires = now + ttlSeconds * 1000
      in c\<lparr>cache := Map_set key \<lparr>data = d, expiresAt = expires\<rparr> (cache c)\<rparr>)"

definition get :: "'v InMemoryCache \<Rightarrow> string \<Rightarrow> int \<Rightarrow> 'v option \<times> 'v InMemoryCache" where
  "get c key now =
     (case Map_get (cache c) key of
        None \<Rightarrow> (None, c)
      | Some entry \<Rightarrow>
          if now > expiresAt entry then (None, c\<lparr>cache := snd (Map_delete key (cache c))\<rparr>)
          else (data entry, c))"

definition has :: "'v InMemoryCache \<Rightarrow> string \<Rightarrow> int \<Rightarrow> bool \<times> 'v InMemoryCache" where
  "has c key now =
     (case Map_get (cache c) key of
        None \<Rightarrow> (False, c)
      | Some entry \<Rightarrow>
          if now > expiresAt entry then (False, c\<lparr>cache := snd (Map_delete key (cache c))\<rparr>)
          else (True, c))"

definition delete :: "'v InMemoryCache \<Rightarrow> string \<Rightarrow> bool \<times> 'v InMemoryCache" where
  "delete c key = (fst (Map_delete key (cache c)), c\<lparr>cache := snd (Map_delete key (cache c))\<rparr>)"

text \<open>
  The \<open>for\<close> loop of \<open>invalidatePattern\<close> over the array \<open>keys\<close>, which is built from the
  map before the loop starts; the map and \<open>count\<close> are the loop's state.
\<close>

fun invalidate_loop ::
  "(string \<Rightarrow> bool) \<Rightarrow> string list \<Rightarrow> (string, 'e) Map \<Rightarrow> nat \<Rightarrow> (string, 'e) Map \<times> nat" where
  "invalidate_loop test [] m count = (m, count)"
| "invalidate_loop test (k # ks) m count =
     (if test k then invalidate_loop test ks (snd (Map_delete k m)) (count + 1)
      else invalidate_loop test ks m count)"

definition invalidatePattern ::
  "RegExp \<Rightarrow> 'v InMemoryCache \<Rightarrow> string \<Rightarrow> exn + (nat \<times> 'v InMemoryCache)" where
  "invalidatePattern re c pattern =
     (case re pattern of
        None \<Rightarrow> Inl (SyntaxError pattern)
      | Some test \<Rightarrow>
          (case invalidate_loop test (Map_keys (cache c)) (cache c) 0 of
             (m, count) \<Rightarrow> Inr (count, c\<lparr>cache := m\<rparr>)))"

definition clear :: "'v InMemoryCache \<Rightarrow> 'v InMemoryCache" where
  "clear c = c\<lparr>cache := []\<rparr>"

text \<open>The sweep, over the array \<open>entries\<close> built before its loop starts.\<close>

fun cleanup_loop :: "int \<Rightarrow> (string \<times> 'v CacheEntry) list \<Rightarrow> (string, 'v CacheEntry) Map \<Rightarrow> (string, 'v CacheEntry) Map" where
  "cleanup_loop now [] m = m"
| "cleanup_loop now ((key, entry) # es) m =
     (if now > expiresAt entry then cleanup_loop now es (snd (Map_delete key m))
      else cleanup_loop now es m)"

definition cleanup :: "'v InMemoryCache \<Rightarrow> int \<Rightarrow> 'v InMemoryCache" where
  "cleanup c now = c\<lparr>cache := cleanup_loop now (cache c) (cache c)\<rparr>"

definition stats_cache :: "'v InMemoryCache \<Rightarrow> nat \<times> string list" where
  "stats_cache c = (length (cache c), Map_keys (cache c))"

definition destroy :: "'v InMemoryCache \<Rightarrow> 'v InMemoryCache" where
  "destroy c =
     (let c1 = (case cleanupInterval c of Some h \<Rightarrow> c\<lparr>cleanupInterval := None\<rparr> | None \<Rightarrow> c)
      in c1\<lparr>cache := []\<rparr>)"

text \<open>
  One call of a public method, and what it gives back to its caller: \<open>Inl\<close> is an
  exception that leaves the method, \<open>Inr\<close> the returned value with the cache it leaves.
\<close>

datatype 'v cache_call =
    Set string "'v option" "int option"
  | Get string
  | Has string
  | Delete string
  | InvalidatePattern string
  | Clear
  | Stats
  | Destroy

datatype 'v cache_return =
    Void
  | Value "'v option"
  | Boolean bool
  | Number nat
  | StatsObject nat "string list"

definition call ::
  "RegExp \<Rightarrow> 'v InMemoryCache \<Rightarrow> int \<Rightarrow> 'v cache_call \<Rightarrow> exn + ('v cache_return \<times> 'v InMemoryCache)" where
  "call re c now op =
     (case op of
        Set key d ttl \<Rightarrow> Inr (Void, set_cache c key d (case ttl of None \<Rightarrow> 300 | Some t \<Rightarrow> t) now)
      | Get key \<Rightarrow> (case get c key now of (v, c') \<Rightarrow> Inr (Value v, c'))
      | Has key \<Rightarrow> (case has c key now of (r, c') \<Rightarrow> Inr (Boolean r, c'))
      | Delete key \<Rightarrow> (case delete c key of (r, c') \<Rightarrow> Inr (Boolean r, c'))
      | InvalidatePattern pattern \<Rightarrow>
          (case invalidatePattern re c pattern of
             Inl e \<Rightarrow> Inl e
           | Inr (n, c') \<Rightarrow> Inr (Number n, c'))
      | Clear \<Rightarrow> Inr (Void, clear c)
      | Stats \<Rightarrow> (case stats_cache c of (n, ks) \<Rightarrow> Inr (StatsObject n ks, c))
      | Destroy \<Rightarrow> Inr (Void, destroy c))"

section \<open>Inputs for the examples\<close>

text \<open>
  Whether a schedule makes the call fail against a timer armed with \<open>ms\<close>: all but the
  operation returning a value first.
\<close>

definition is_failure :: "int \<Rightarrow> 'a schedule \<Rightarrow> bool" where
  "is_failure ms sch = (case race_order ms sch of OpFirst (Returns v) \<Rightarrow> False | _ \<Rightarrow> True)"

text \<open>A spy operation: it counts its invocations in the world and follows a fixed schedule.\<close>

definition spy :: "'a schedule \<Rightarrow> nat \<Rightarrow> 'a schedule \<times> nat" where
  "spy sch n = (sch, Suc n)"

definition failing_call :: "int \<Rightarrow> int \<times> (nat \<Rightarrow> string schedule \<times> nat) \<times> int" where
  "failing_call t = (t, spy (Settles 1 (Throws (Error ''fail''))), t + 1)"

text \<open>The production breaker while probing, with \<open>n\<close> successes counted so far.\<close>

definition probing :: "int \<Rightarrow> CircuitBreaker" where
  "probing n = modelApiCircuitBreaker\<lparr>stats :=
     \<lparr>failures = 3, successes = n, lastFailureTime = Some 1000, state = HALF_OPEN\<rparr>\<rparr>"

text \<open>
  A stand-in for the regular-expression engine, used only to instantiate the theorems:
  the pattern \<open>(\<close> is malformed, any other pattern matches the keys that start with it.
\<close>

definition starts_with :: "string \<Rightarrow> string \<Rightarrow> bool" where
  "starts_with p k = (take (length p) k = p)"

definition toy_RegExp :: RegExp where
  "toy_RegExp p = (if p = ''('' then None else Some (starts_with p))"

definition two_entries :: "nat InMemoryCache" where
  "two_entries =
     set_cache (set_cache (new_InMemoryCache 1) ''campaigns:1'' (Some 1) 60 0)
       ''metrics:1'' (Some 2) 60 0"

definition null_entry :: "nat InMemoryCache" where
  "null_entry = set_cache (new_InMemoryCache 1) ''k'' None 300 1000"

section \<open>Properties of the circuit breaker\<close>

lemmas breaker_defs = modelApiCircuitBreaker_def new_CircuitBreaker_def or_default_def
  initial_stats_def forceOpen_def probing_def

subsection \<open>The race\<close>

lemma production_delay: "setTimeout_delay (timeout (options modelApiCircuitBreaker)) = 10000"
  by (simp add: setTimeout_delay_def breaker_defs)

lemma fn_throws_first_event:
  "first_event (FnThrows e) = \<lparr>promise = Rejected e, timer = Armed\<rparr>"
  by (simp add: first_event_def on_executor_throw_def reject_def race_start_def)

lemma timer_first_event:
  "first_event (TimerFirst late) = \<lparr>promise = Rejected timeout_error, timer = Fired\<rparr>"
  by (simp add: first_event_def timer_event_def on_timer_def reject_def race_start_def)

lemma op_first_event:
  "first_event (OpFirst s) =
     \<lparr>promise = (case s of Returns v \<Rightarrow> Fulfilled v | Throws e \<Rightarrow> Rejected e), timer = Cleared\<rparr>"
  by (simp add: first_event_def op_event_def on_then_def on_catch_def resolve_def reject_def
      clearTimeout_def race_start_def split: settle.splits)

lemma withTimeout_Returns:
  "d < setTimeout_delay (timeout (options b)) \<Longrightarrow>
   withTimeout b (Settles d (Returns v)) = Fulfilled v"
  by (simp add: withTimeout_def race_order_def op_first_event)

lemma withTimeout_Throws:
  "d < setTimeout_delay (timeout (options b)) \<Longrightarrow>
   withTimeout b (Settles d (Throws e)) = Rejected e"
  by (simp add: withTimeout_def race_order_def op_first_event)

lemma withTimeout_late:
  "setTimeout_delay (timeout (options b)) \<le> d \<Longrightarrow>
   withTimeout b (Settles d s) = Rejected timeout_error"
  by (simp add: withTimeout_def race_order_def timer_first_event)

lemma withTimeout_Never: "withTimeout b Never = Rejected timeout_error"
  by (simp add: withTimeout_def race_order_def timer_first_event)

lemma withTimeout_ThrowsSync: "withTimeout b (ThrowsSync e) = Rejected e"
  by (simp add: withTimeout_def race_order_def fn_throws_first_event)

lemma withTimeout_TimerFirst:
  "race_order (timeout (options b)) sch = TimerFirst late \<Longrightarrow>
   withTimeout b sch = Rejected timeout_error"
  by (simp add: withTimeout_def timer_first_event)

lemma withTimeout_options: "options b' = options b \<Longrightarrow> withTimeout b' sch = withTimeout b sch"
  by (simp add: withTimeout_def)

lemma withTimeout_settles: "withTimeout b sch \<noteq> Pending"
proof (cases "race_order (timeout (options b)) sch")
  case (FnThrows e)
  then show ?thesis by (simp add: withTimeout_def fn_throws_first_event)
next
  case (OpFirst s)
  then show ?thesis by (cases s) (simp_all add: withTimeout_def op_first_event)
next
  case (TimerFirst late)
  then show ?thesis by (simp add: withTimeout_def timer_first_event)
qed

lemma is_failure_Rejected:
  "is_failure (timeout (options b)) sch \<Longrightarrow> \<exists>e. withTimeout b sch = Rejected e"
  by (auto simp: is_failure_def withTimeout_def fn_throws_first_event op_first_event
      timer_first_event split: order.splits settle.splits)

lemma later_events_keep_promise:
  "promise (later_events ord (first_event ord)) = promise (first_event ord)"
proof (cases ord)
  case (FnThrows e)
  then show ?thesis
    by (simp add: later_events_def fn_throws_first_event timer_event_def on_timer_def reject_def)
next
  case (OpFirst s)
  then show ?thesis by (simp add: later_events_def op_first_event timer_event_def)
next
  case (TimerFirst late)
  then show ?thesis
    by (simp add: later_events_def timer_first_event op_event_def on_then_def on_catch_def
        resolve_def reject_def clearTimeout_def split: option.splits settle.splits)
qed

lemma timer_released_unless_fn_throws:
  "(\<forall>e. ord \<noteq> FnThrows e) \<Longrightarrow> timer (first_event ord) \<noteq> Armed"
  by (cases ord) (simp_all add: op_first_event timer_first_event)

subsection \<open>One call\<close>

lemma attempt_Fulfilled:
  "fn w = (sch, w') \<Longrightarrow> withTimeout b sch = Fulfilled v \<Longrightarrow>
   attempt b fn now' w = Some (Inr v, onSuccess b, w')"
  by (simp add: attempt_def)

lemma attempt_Rejected:
  "fn w = (sch, w') \<Longrightarrow> withTimeout b sch = Rejected e \<Longrightarrow>
   attempt b fn now' w = Some (Inl e, onFailure b now', w')"
  by (simp add: attempt_def)

lemma execute_not_OPEN:
  "state (stats b) \<noteq> OPEN \<Longrightarrow> execute b now fn now' w = attempt b fn now' w"
  by (simp add: execute_def)

lemma execute_admit:
  "execute b now fn now' w =
     (case admit b now of None \<Rightarrow> Some (Inl open_error, b, w)
      | Some b1 \<Rightarrow> attempt b1 fn now' w)"
  by (simp add: execute_def admit_def)

lemma admit_options: "admit b now = Some ba \<Longrightarrow> options ba = options b"
  by (auto simp: admit_def split: if_splits)

lemma admit_failures: "admit b now = Some ba \<Longrightarrow> failures (stats ba) = failures (stats b)"
  by (auto simp: admit_def split: if_splits)

lemma execute_OPEN_cooldown:
  "state (stats b) = OPEN \<Longrightarrow> \<not> shouldAttemptReset b now \<Longrightarrow>
   execute b now fn now' w = Some (Inl open_error, b, w)"
  by (simp add: execute_def)

lemma onSuccess_CLOSED:
  "state (stats b) = CLOSED \<Longrightarrow> onSuccess b = b\<lparr>stats := (stats b)\<lparr>failures := 0\<rparr>\<rparr>"
  by (simp add: onSuccess_def)

lemma onFailure_CLOSED:
  "state (stats b) = CLOSED \<Longrightarrow>
   onFailure b t = b\<lparr>stats := (stats b)\<lparr>failures := failures (stats b) + 1,
       lastFailureTime := Some t,
       state := (if failures (stats b) + 1 \<ge> failureThreshold (options b) then OPEN else CLOSED)\<rparr>\<rparr>"
  by (simp add: onFailure_def Let_def)

lemma onSuccess_HALF_OPEN:
  "state (stats b) = HALF_OPEN \<Longrightarrow>
   onSuccess b = (if successes (stats b) + 1 \<ge> successThreshold (options b) then reset b
                  else b\<lparr>stats := (stats b)\<lparr>successes := successes (stats b) + 1\<rparr>\<rparr>)"
  by (simp add: onSuccess_def Let_def reset_def)

lemma onFailure_HALF_OPEN:
  "state (stats b) = HALF_OPEN \<Longrightarrow>
   onFailure b t = b\<lparr>stats := (stats b)\<lparr>failures := failures (stats b) + 1,
       lastFailureTime := Some t, state := OPEN, successes := 0\<rparr>\<rparr>"
  by (simp add: onFailure_def Let_def)

subsection \<open>Sequences of calls\<close>

lemma execute_all_append:
  "execute_all b w (cs @ ds) =
     (case execute_all b w cs of None \<Rightarrow> None | Some (b', w') \<Rightarrow> execute_all b' w' ds)"
  by (induction cs arbitrary: b w) (auto split: option.splits)

lemma failures_below_threshold:
  "state (stats b) = CLOSED \<Longrightarrow>
   failures (stats b) + int (length cs) < failureThreshold (options b) \<Longrightarrow>
   \<forall>(now, fn, now') \<in> set cs. \<forall>w. is_failure (timeout (options b)) (fst (fn w)) \<Longrightarrow>
   \<exists>b' w'. execute_all b w cs = Some (b', w') \<and> state (stats b') = CLOSED
     \<and> failures (stats b') = failures (stats b) + int (length cs) \<and> options b' = options b"
proof (induction cs arbitrary: b w)
  case Nil
  then show ?case by simp
next
  case (Cons c cs)
  obtain now fn now' where c: "c = (now, fn, now')" by (cases c) auto
  obtain sch w1 where fw: "fn w = (sch, w1)" by (cases "fn w") auto
  from Cons.prems(3) c have "\<forall>w. is_failure (timeout (options b)) (fst (fn w))" by auto
  with fw have "is_failure (timeout (options b)) sch" by (metis fst_conv)
  then obtain e where e: "withTimeout b sch = Rejected e" using is_failure_Rejected by blast
  let ?b1 = "onFailure b now'"
  have ex: "execute b now fn now' w = Some (Inl e, ?b1, w1)"
    using Cons.prems(1) fw e by (simp add: execute_not_OPEN attempt_Rejected)
  have b1: "state (stats ?b1) = CLOSED" "failures (stats ?b1) = failures (stats b) + 1"
    "options ?b1 = options b"
    using Cons.prems(1,2) by (simp_all add: onFailure_CLOSED)
  have "\<exists>b' w'. execute_all ?b1 w1 cs = Some (b', w') \<and> state (stats b') = CLOSED
     \<and> failures (stats b') = failures (stats ?b1) + int (length cs) \<and> options b' = options ?b1"
    using Cons.prems(2,3) b1 by (intro Cons.IH) auto
  then show ?case using ex c b1 by auto
qed

lemma failures_reach_threshold:
  assumes "state (stats b) = CLOSED" and "cs \<noteq> []"
    and "failures (stats b) + int (length cs) = failureThreshold (options b)"
    and "\<forall>(now, fn, now') \<in> set cs. \<forall>w. is_failure (timeout (options b)) (fst (fn w))"
  shows "\<exists>b' w'. execute_all b w cs = Some (b', w') \<and> state (stats b') = OPEN"
proof -
  obtain now fn now' where l: "last cs = (now, fn, now')" by (cases "last cs") auto
  have split: "cs = butlast cs @ [(now, fn, now')]"
    using assms(2) l by (metis append_butlast_last_id)
  have len: "int (length (butlast cs)) = int (length cs) - 1"
    using assms(2) by (cases cs) simp_all
  have fails: "\<forall>(now, fn, now') \<in> set (butlast cs). \<forall>w. is_failure (timeout (options b)) (fst (fn w))"
    using assms(4) by (meson in_set_butlastD)
  have "failures (stats b) + int (length (butlast cs)) < failureThreshold (options b)"
    using assms(3) len by simp
  from failures_below_threshold [OF assms(1) this fails, of w]
  obtain b1 w1 where b1: "execute_all b w (butlast cs) = Some (b1, w1)"
    "state (stats b1) = CLOSED"
    "failures (stats b1) = failures (stats b) + int (length (butlast cs))"
    "options b1 = options b" by blast
  obtain sch w2 where fw: "fn w1 = (sch, w2)" by (cases "fn w1") auto
  have "(now, fn, now') \<in> set cs" using split by (metis in_set_conv_decomp)
  with assms(4) have "\<forall>w. is_failure (timeout (options b)) (fst (fn w))" by auto
  with fw have "is_failure (timeout (options b1)) sch" using b1(4) by (metis fst_conv)
  then obtain e where e: "withTimeout b1 sch = Rejected e" using is_failure_Rejected by blast
  have ex: "execute b1 now fn now' w1 = Some (Inl e, onFailure b1 now', w2)"
    using b1(2) fw e by (simp add: execute_not_OPEN attempt_Rejected)
  have "failures (stats b1) + 1 \<ge> failureThreshold (options b1)"
    using b1(3,4) assms(3) len by simp
  then have op: "state (stats (onFailure b1 now')) = OPEN"
    using b1(2) by (simp add: onFailure_CLOSED)
  have "execute_all b w cs = execute_all b1 w1 [(now, fn, now')]"
    using b1(1) by (subst split) (simp add: execute_all_append)
  then show ?thesis using ex op by simp
qed

lemma rejected_calls_unchanged:
  "state (stats b) = OPEN \<Longrightarrow> \<forall>(t, f, t') \<in> set cs. \<not> shouldAttemptReset b t \<Longrightarrow>
   execute_all b w cs = Some (b, w)"
  by (induction cs) (auto simp: execute_OPEN_cooldown)

subsection \<open>The rows of the transition table\<close>

text \<open>
  Claim C1, the CLOSED row. A new breaker is CLOSED with zero counters. For a breaker
  that is CLOSED: a call whose awaited promise is fulfilled returns the value and sets
  \<open>failures\<close> to 0, whatever the thresholds, and changes nothing else; a call whose
  awaited promise is rejected (by the operation or by the timer) rethrows the error,
  adds one to \<open>failures\<close>, records the clock in \<open>lastFailureTime\<close> and opens the breaker
  when \<open>failures\<close> has reached \<open>failureThreshold\<close>. From \<open>failures = 0\<close>, after
  \<open>failureThreshold - 1\<close> failed calls in a row the breaker is still CLOSED; after
  \<open>failureThreshold\<close> of them it is OPEN.
\<close>

theorem closed_state_row:
  fixes b :: CircuitBreaker and fn :: "'w \<Rightarrow> 'a schedule \<times> 'w"
    and cs ds :: "(int \<times> ('w \<Rightarrow> 'a schedule \<times> 'w) \<times> int) list"
  shows
  "stats (new_CircuitBreaker opts) =
     \<lparr>failures = 0, successes = 0, lastFailureTime = None, state = CLOSED\<rparr>
   \<and> (state (stats b) = CLOSED \<and> fn w = (sch, w') \<and> withTimeout b sch = Fulfilled v \<longrightarrow>
        execute b now fn now' w = Some (Inr v, b\<lparr>stats := (stats b)\<lparr>failures := 0\<rparr>\<rparr>, w'))
   \<and> (state (stats b) = CLOSED \<and> fn w = (sch, w') \<and> withTimeout b sch = Rejected e \<longrightarrow>
        execute b now fn now' w =
          Some (Inl e,
                b\<lparr>stats := (stats b)\<lparr>failures := failures (stats b) + 1,
                    lastFailureTime := Some now',
                    state := (if failures (stats b) + 1 \<ge> failureThreshold (options b)
                              then OPEN else CLOSED)\<rparr>\<rparr>,
                w'))
   \<and> (state (stats b) = CLOSED \<and> failures (stats b) = 0
        \<and> (\<forall>(t, f, t') \<in> set cs. \<forall>u. is_failure (timeout (options b)) (fst (f u)))
        \<and> int (length cs) = failureThreshold (options b) - 1 \<longrightarrow>
        (\<exists>b' u'. execute_all b w cs = Some (b', u') \<and> state (stats b') = CLOSED))
   \<and> (state (stats b) = CLOSED \<and> failures (stats b) = 0
        \<and> (\<forall>(t, f, t') \<in> set ds. \<forall>u. is_failure (timeout (options b)) (fst (f u)))
        \<and> ds \<noteq> [] \<and> int (length ds) = failureThreshold (options b) \<longrightarrow>
        (\<exists>b' u'. execute_all b w ds = Some (b', u') \<and> state (stats b') = OPEN))"
proof (intro conjI impI)
  show "stats (new_CircuitBreaker opts) =
      \<lparr>failures = 0, successes = 0, lastFailureTime = None, state = CLOSED\<rparr>"
    by (simp add: new_CircuitBreaker_def initial_stats_def)
next
  assume "state (stats b) = CLOSED \<and> fn w = (sch, w') \<and> withTimeout b sch = Fulfilled v"
  then show "execute b now fn now' w =
      Some (Inr v, b\<lparr>stats := (stats b)\<lparr>failures := 0\<rparr>\<rparr>, w')"
    by (simp add: execute_not_OPEN attempt_Fulfilled onSuccess_CLOSED)
next
  assume "state (stats b) = CLOSED \<and> fn w = (sch, w') \<and> withTimeout b sch = Rejected e"
  then show "execute b now fn now' w =
          Some (Inl e,
                b\<lparr>stats := (stats b)\<lparr>failures := failures (stats b) + 1,
                    lastFailureTime := Some now',
                    state := (if failures (stats b) + 1 \<ge> failureThreshold (options b)
                              then OPEN else CLOSED)\<rparr>\<rparr>,
                w')"
    by (simp add: execute_not_OPEN attempt_Rejected onFailure_CLOSED)
next
  assume a: "state (stats b) = CLOSED \<and> failures (stats b) = 0
        \<and> (\<forall>(t, f, t') \<in> set cs. \<forall>u. is_failure (timeout (options b)) (fst (f u)))
        \<and> int (length cs) = failureThreshold (options b) - 1"
  then have "failures (stats b) + int (length cs) < failureThreshold (options b)" by simp
  from failures_below_threshold [OF _ this, of w] a
  show "\<exists>b' u'. execute_all b w cs = Some (b', u') \<and> state (stats b') = CLOSED" by blast
next
  assume a: "state (stats b) = CLOSED \<and> failures (stats b) = 0
        \<and> (\<forall>(t, f, t') \<in> set ds. \<forall>u. is_failure (timeout (options b)) (fst (f u)))
        \<and> ds \<noteq> [] \<and> int (length ds) = failureThreshold (options b)"
  then have "failures (stats b) + int (length ds) = failureThreshold (options b)" by simp
  from failures_reach_threshold [OF _ _ this, of w] a
  show "\<exists>b' u'. execute_all b w ds = Some (b', u') \<and> state (stats b') = OPEN" by blast
qed

text \<open>
  The production breaker (\<open>failureThreshold = 3\<close>): a success, a timeout, two failures in
  a row and three failures in a row.
\<close>

theorem closed_state_row_witness:
  "state (stats modelApiCircuitBreaker) = CLOSED
   \<and> execute modelApiCircuitBreaker 10 (spy (Settles 5 (Returns ''ok''))) 11 0
       = Some (Inr ''ok'', modelApiCircuitBreaker, Suc 0)
   \<and> execute modelApiCircuitBreaker 10 (spy (Never :: string schedule)) 10010 0
       = Some (Inl timeout_error,
               modelApiCircuitBreaker\<lparr>stats := \<lparr>failures = 1, successes = 0,
                  lastFailureTime = Some 10010, state = CLOSED\<rparr>\<rparr>,
               Suc 0)
   \<and> (\<exists>b' u'. execute_all modelApiCircuitBreaker 0 [failing_call 10, failing_call 20]
          = Some (b', u') \<and> state (stats b') = CLOSED)
   \<and> (\<exists>b' u'. execute_all modelApiCircuitBreaker 0
            [failing_call 10, failing_call 20, failing_call 30]
          = Some (b', u') \<and> state (stats b') = OPEN)"
proof -
  have st: "state (stats modelApiCircuitBreaker) = CLOSED"
    "failures (stats modelApiCircuitBreaker) = 0"
    "failureThreshold (options modelApiCircuitBreaker) = 3"
    by (simp_all add: breaker_defs)
  have f: "is_failure 10000 (Settles 1 (Throws (Error ''fail'')) :: string schedule)"
    by (simp add: is_failure_def race_order_def setTimeout_delay_def)
  have to: "timeout (options modelApiCircuitBreaker) = 10000"
    by (simp add: breaker_defs)
  note row = closed_state_row [where b = modelApiCircuitBreaker and w = "0::nat"
      and cs = "[failing_call 10, failing_call 20]"
      and ds = "[failing_call 10, failing_call 20, failing_call 30]"]
  have 1: "execute modelApiCircuitBreaker 10 (spy (Settles 5 (Returns ''ok''))) 11 0
       = Some (Inr ''ok'', modelApiCircuitBreaker, Suc 0)"
    using row [where fn = "spy (Settles 5 (Returns ''ok''))" and sch = "Settles 5 (Returns ''ok'')"
        and w' = "Suc 0" and v = "''ok''" and now = 10 and now' = 11] st
    by (simp add: spy_def withTimeout_Returns setTimeout_delay_def breaker_defs)
  have 2: "execute modelApiCircuitBreaker 10 (spy (Never :: string schedule)) 10010 0
       = Some (Inl timeout_error,
               modelApiCircuitBreaker\<lparr>stats := \<lparr>failures = 1, successes = 0,
                  lastFailureTime = Some 10010, state = CLOSED\<rparr>\<rparr>,
               Suc 0)"
    using row [where fn = "spy (Never)" and sch = "Never"
        and w' = "Suc 0" and e = timeout_error and now = 10 and now' = 10010] st
    by (simp add: spy_def withTimeout_Never breaker_defs)
  have 3: "\<exists>b' u'. execute_all modelApiCircuitBreaker 0 [failing_call 10, failing_call 20]
          = Some (b', u') \<and> state (stats b') = CLOSED"
    using row st f to by (simp add: failing_call_def spy_def)
  have 4: "\<exists>b' u'. execute_all modelApiCircuitBreaker 0
            [failing_call 10, failing_call 20, failing_call 30]
          = Some (b', u') \<and> state (stats b') = OPEN"
    using row st f to by (simp add: failing_call_def spy_def)
  show ?thesis using st(1) 1 2 3 4 by blast
qed

text \<open>
  Claim C3, the HALF_OPEN row. For a breaker that is HALF_OPEN: a call whose awaited
  promise is fulfilled adds one to \<open>successes\<close> and, when the new count has reached
  \<open>successThreshold\<close>, closes the breaker with \<open>failures\<close> and \<open>successes\<close> at 0 (and no
  failure time); a call whose awaited promise is rejected opens the breaker at once, sets
  \<open>successes\<close> to 0 and records the clock in \<open>lastFailureTime\<close>.
\<close>

theorem half_open_state_row:
  fixes b :: CircuitBreaker and fn :: "'w \<Rightarrow> 'a schedule \<times> 'w"
  shows
  "(state (stats b) = HALF_OPEN \<and> fn w = (sch, w') \<and> withTimeout b sch = Fulfilled v
      \<and> successes (stats b) + 1 < successThreshold (options b) \<longrightarrow>
      execute b now fn now' w =
        Some (Inr v, b\<lparr>stats := (stats b)\<lparr>successes := successes (stats b) + 1\<rparr>\<rparr>, w'))
   \<and> (state (stats b) = HALF_OPEN \<and> fn w = (sch, w') \<and> withTimeout b sch = Fulfilled v
      \<and> successes (stats b) + 1 \<ge> successThreshold (options b) \<longrightarrow>
      execute b now fn now' w =
        Some (Inr v,
              b\<lparr>stats := \<lparr>failures = 0, successes = 0, lastFailureTime = None,
                           state = CLOSED\<rparr>\<rparr>,
              w'))
   \<and> (state (stats b) = HALF_OPEN \<and> fn w = (sch, w') \<and> withTimeout b sch = Rejected e \<longrightarrow>
      execute b now fn now' w =
        Some (Inl e,
              b\<lparr>stats := (stats b)\<lparr>failures := failures (stats b) + 1,
                  lastFailureTime := Some now', state := OPEN, successes := 0\<rparr>\<rparr>,
              w'))"
  by (simp add: execute_not_OPEN attempt_Fulfilled attempt_Rejected onSuccess_HALF_OPEN
      onFailure_HALF_OPEN reset_def)

text \<open>
  The production breaker (\<open>successThreshold = 2\<close>) while probing: the first success, the
  second success, and a failure after the first success.
\<close>

theorem half_open_state_row_witness:
  "state (stats (probing 0)) = HALF_OPEN
   \<and> execute (probing 0) 40000 (spy (Settles 5 (Returns ''ok''))) 40001 0
       = Some (Inr ''ok'', probing 1, Suc 0)
   \<and> execute (probing 1) 40000 (spy (Settles 5 (Returns ''ok''))) 40001 0
       = Some (Inr ''ok'', modelApiCircuitBreaker, Suc 0)
   \<and> execute (probing 1) 40000 (spy (Settles 5 (Throws (Error ''fail'')) :: string schedule))
         40001 0
       = Some (Inl (Error ''fail''),
               modelApiCircuitBreaker\<lparr>stats := \<lparr>failures = 4, successes = 0,
                  lastFailureTime = Some 40001, state = OPEN\<rparr>\<rparr>,
               Suc 0)"
proof -
  have st: "state (stats (probing 0)) = HALF_OPEN" "state (stats (probing 1)) = HALF_OPEN"
    "successThreshold (options (probing 0)) = 2" "successThreshold (options (probing 1)) = 2"
    "successes (stats (probing 0)) = 0" "successes (stats (probing 1)) = 1"
    by (simp_all add: breaker_defs)
  have 1: "execute (probing 0) 40000 (spy (Settles 5 (Returns ''ok''))) 40001 0
       = Some (Inr ''ok'', probing 1, Suc 0)"
    using half_open_state_row [where b = "probing 0" and fn = "spy (Settles 5 (Returns ''ok''))"
        and w = "0::nat" and sch = "Settles 5 (Returns ''ok'')" and w' = "Suc 0" and v = "''ok''"
        and now = 40000 and now' = 40001] st
    by (simp add: spy_def withTimeout_Returns setTimeout_delay_def breaker_defs)
  have 2: "execute (probing 1) 40000 (spy (Settles 5 (Returns ''ok''))) 40001 0
       = Some (Inr ''ok'', modelApiCircuitBreaker, Suc 0)"
    using half_open_state_row [where b = "probing 1" and fn = "spy (Settles 5 (Returns ''ok''))"
        and w = "0::nat" and sch = "Settles 5 (Returns ''ok'')" and w' = "Suc 0" and v = "''ok''"
        and now = 40000 and now' = 40001] st
    by (simp add: spy_def withTimeout_Returns setTimeout_delay_def breaker_defs)
  have 3: "execute (probing 1) 40000
         (spy (Settles 5 (Throws (Error ''fail'')) :: string schedule)) 40001 0
       = Some (Inl (Error ''fail''),
               modelApiCircuitBreaker\<lparr>stats := \<lparr>failures = 4, successes = 0,
                  lastFailureTime = Some 40001, state = OPEN\<rparr>\<rparr>,
               Suc 0)"
    using half_open_state_row [where b = "probing 1"
        and fn = "spy (Settles 5 (Throws (Error ''fail'')) :: string schedule)"
        and w = "0::nat" and sch = "Settles 5 (Throws (Error ''fail''))" and w' = "Suc 0"
        and e = "Error ''fail''" and now = 40000 and now' = 40001] st
    by (simp add: spy_def withTimeout_Throws setTimeout_delay_def breaker_defs)
  show ?thesis using st(1) 1 2 3 by blast
qed

subsection \<open>The OPEN state\<close>

lemma open_error_distinct: "open_error \<noteq> timeout_error"
  by (simp add: open_error_def timeout_error_def)

lemma open_rejects_nonzero_timestamp:
  "state (stats b) = OPEN \<Longrightarrow> lastFailureTime (stats b) = Some t \<Longrightarrow> t \<noteq> 0 \<Longrightarrow>
   now - t < resetTimeout (options b) \<Longrightarrow>
   execute b now fn now' w = Some (Inl open_error, b, w)"
  by (simp add: execute_def shouldAttemptReset_def)

lemma open_probe_after_cooldown:
  "state (stats b) = OPEN \<Longrightarrow> lastFailureTime (stats b) = Some t \<Longrightarrow>
   now - t \<ge> resetTimeout (options b) \<Longrightarrow>
   execute b now fn now' w =
     attempt (b\<lparr>stats := (stats b)\<lparr>state := HALF_OPEN\<rparr>\<rparr>) fn now' w"
  by (simp add: execute_def shouldAttemptReset_def)

text \<open>
  Claim C2 says that an OPEN breaker rejects every call made while
  \<open>now - lastFailureTime < resetTimeout\<close>, without invoking the operation. The two lemmas
  above give this for every failure time other than 0, and the probe once the cooldown
  has elapsed. At the failure time 0 the code does otherwise: \<open>!this.stats.lastFailureTime\<close>
  in \<open>shouldAttemptReset\<close> takes the number 0 for a missing failure time. The production
  breaker, forced open when the clock reads 0 and called one second later, 29 seconds
  before the end of its cooldown, becomes HALF_OPEN and invokes the operation (the spy
  counts one invocation).
\<close>

theorem open_zero_timestamp_invokes:
  "state (stats (forceOpen modelApiCircuitBreaker 0)) = OPEN
   \<and> lastFailureTime (stats (forceOpen modelApiCircuitBreaker 0)) = Some 0
   \<and> (1000::int) - 0 < resetTimeout (options (forceOpen modelApiCircuitBreaker 0))
   \<and> execute (forceOpen modelApiCircuitBreaker 0) 1000 (spy (Settles 5 (Returns ''ok''))) 1001 0
       = Some (Inr ''ok'',
               \<lparr>options = options modelApiCircuitBreaker,
                stats = \<lparr>failures = 0, successes = 1, lastFailureTime = Some 0,
                         state = HALF_OPEN\<rparr>\<rparr>,
               Suc 0)"
  by (simp add: breaker_defs execute_def shouldAttemptReset_def attempt_def spy_def
      withTimeout_Returns setTimeout_delay_def onSuccess_def Let_def)

text \<open>
  Claim C10. A call rejected because the breaker is OPEN and \<open>shouldAttemptReset\<close> is false
  returns the "circuit open" error and leaves the whole breaker, and the world of the
  operation, as they were: no failure is counted and \<open>lastFailureTime\<close> is not touched. So
  any number of such calls in a row leaves the breaker unchanged, and the end of the
  cooldown with it.
\<close>

theorem open_rejection_atomic:
  fixes b :: CircuitBreaker and fn :: "'w \<Rightarrow> 'a schedule \<times> 'w"
    and cs :: "(int \<times> ('w \<Rightarrow> 'a schedule \<times> 'w) \<times> int) list"
  shows
  "(state (stats b) = OPEN \<and> \<not> shouldAttemptReset b now \<longrightarrow>
      execute b now fn now' w = Some (Inl open_error, b, w))
   \<and> (state (stats b) = OPEN \<and> (\<forall>(t, f, t') \<in> set cs. \<not> shouldAttemptReset b t) \<longrightarrow>
      execute_all b w cs = Some (b, w))"
  by (simp add: execute_OPEN_cooldown rejected_calls_unchanged)

text \<open>
  The production breaker forced open at clock 1000 (cooldown 30000): a call at 2000, and
  three calls at 2000, 15000 and 30999.
\<close>

theorem open_rejection_atomic_witness:
  "state (stats (forceOpen modelApiCircuitBreaker 1000)) = OPEN
   \<and> \<not> shouldAttemptReset (forceOpen modelApiCircuitBreaker 1000) 2000
   \<and> execute (forceOpen modelApiCircuitBreaker 1000) 2000 (spy (Settles 5 (Returns ''ok'')))
         2001 0
       = Some (Inl open_error, forceOpen modelApiCircuitBreaker 1000, 0)
   \<and> execute_all (forceOpen modelApiCircuitBreaker 1000) 0
         [(2000, spy (Settles 5 (Returns ''ok'')), 2001),
          (15000, spy (Settles 5 (Returns ''ok'')), 15001),
          (30999, spy (Settles 5 (Returns ''ok'')), 31000)]
       = Some (forceOpen modelApiCircuitBreaker 1000, 0)"
proof -
  have st: "state (stats (forceOpen modelApiCircuitBreaker 1000)) = OPEN"
    by (simp add: breaker_defs)
  have cool: "\<not> shouldAttemptReset (forceOpen modelApiCircuitBreaker 1000) 2000"
    "\<not> shouldAttemptReset (forceOpen modelApiCircuitBreaker 1000) 15000"
    "\<not> shouldAttemptReset (forceOpen modelApiCircuitBreaker 1000) 30999"
    by (simp_all add: shouldAttemptReset_def breaker_defs)
  show ?thesis
    using st cool
      open_rejection_atomic [where b = "forceOpen modelApiCircuitBreaker 1000" and now = 2000
        and fn = "spy (Settles 5 (Returns ''ok''))" and now' = 2001 and w = "0::nat"
        and cs = "[(2000, spy (Settles 5 (Returns ''ok'')), 2001),
                   (15000, spy (Settles 5 (Returns ''ok'')), 15001),
                   (30999, spy (Settles 5 (Returns ''ok'')), 31000)]"]
    by (simp del: execute_all.simps)
qed

subsection \<open>The timeout and the fallback\<close>

text \<open>
  The parts of the race that hold for every operation: an operation that has not settled
  when the delay of \<open>this.options.timeout\<close> has elapsed, or never settles, makes an
  admitted call fail with the timeout error, counted by \<open>onFailure\<close>; one that settles
  before that gives its own outcome; the callbacks that run after the first event leave
  the promise as it was; and no timer stays armed after the first event unless \<open>fn()\<close>
  threw (lemma \<open>timer_released_unless_fn_throws\<close>).
\<close>

lemma timeout_counts_as_failure:
  assumes "admit b now = Some ba" and "fn w = (sch, w')"
    and "race_order (timeout (options b)) sch = TimerFirst late"
  shows "execute b now fn now' w = Some (Inl timeout_error, onFailure ba now', w')"
    and "failures (stats (onFailure ba now')) = failures (stats b) + 1"
    and "lastFailureTime (stats (onFailure ba now')) = Some now'"
proof -
  have "options ba = options b" using assms(1) by (rule admit_options)
  then have "withTimeout ba sch = Rejected timeout_error"
    using assms(3) by (simp add: withTimeout_def timer_first_event)
  then show "execute b now fn now' w = Some (Inl timeout_error, onFailure ba now', w')"
    using assms(1,2) by (simp add: execute_admit attempt_Rejected)
  show "failures (stats (onFailure ba now')) = failures (stats b) + 1"
    using admit_failures [OF assms(1)] by (simp add: onFailure_def Let_def)
  show "lastFailureTime (stats (onFailure ba now')) = Some now'"
    by (simp add: onFailure_def Let_def)
qed

lemma settles_after_delay_is_timeout:
  "setTimeout_delay ms \<le> d \<Longrightarrow> race_order ms (Settles d s) = TimerFirst (Some s)"
  by (simp add: race_order_def)

lemma settles_before_delay_is_first:
  "d < setTimeout_delay ms \<Longrightarrow> race_order ms (Settles d s) = OpFirst s"
  by (simp add: race_order_def)

text \<open>
  Claim C6 says that the timer handle is cleared on whichever path resolves first. The
  \<open>then\<close> and \<open>catch\<close> callbacks clear it, but they are attached to the promise that
  \<open>fn()\<close> returns: when \<open>fn()\<close> throws before returning one, the exception rejects the
  promise of \<open>withTimeout\<close> and \<open>clearTimeout\<close> never runs. On the production breaker
  (\<open>timeout = 10000\<close>) such a call fails at once with the error of the operation, counted
  as a failure, and the timer stays armed; it fires ten seconds later, on a promise
  that is already settled.
\<close>

theorem fn_throws_timer_stays_armed:
  "race_order (timeout (options modelApiCircuitBreaker))
       (ThrowsSync (Error ''boom'') :: string schedule) = FnThrows (Error ''boom'')
   \<and> first_event (FnThrows (Error ''boom'') :: string order)
       = \<lparr>promise = Rejected (Error ''boom''), timer = Armed\<rparr>
   \<and> later_events (FnThrows (Error ''boom''))
         (first_event (FnThrows (Error ''boom'') :: string order))
       = \<lparr>promise = Rejected (Error ''boom''), timer = Fired\<rparr>
   \<and> execute modelApiCircuitBreaker 10 (spy (ThrowsSync (Error ''boom'') :: string schedule))
         10 0
       = Some (Inl (Error ''boom''),
               modelApiCircuitBreaker\<lparr>stats := \<lparr>failures = 1, successes = 0,
                  lastFailureTime = Some 10, state = CLOSED\<rparr>\<rparr>,
               Suc 0)"
  by (simp add: race_order_def fn_throws_first_event later_events_def timer_event_def
      on_timer_def reject_def execute_def attempt_def spy_def withTimeout_ThrowsSync
      onFailure_def Let_def breaker_defs)

text \<open>
  Claim C8. \<open>callExternalModelApi\<close> always completes with a value, and no error reaches
  its caller: the fallback when the breaker rejects the call; the operation's value when
  the operation returns it before the delay of the timer has elapsed; the fallback when
  the operation fails before that, when it has not settled by then or never settles,
  and when it throws before returning a promise.
\<close>

theorem fallback_total:
  fixes b :: CircuitBreaker and apiCall :: "'w \<Rightarrow> 'a schedule \<times> 'w"
  shows
  "(\<exists>v b' w'. callExternalModelApi b now apiCall fallback now' w = Some (v, b', w'))
   \<and> (admit b now = None \<longrightarrow>
        callExternalModelApi b now apiCall fallback now' w = Some (fallback, b, w))
   \<and> (admit b now = Some ba \<and> apiCall w = (Settles d (Returns v), w')
        \<and> d < setTimeout_delay (timeout (options b)) \<longrightarrow>
        callExternalModelApi b now apiCall fallback now' w = Some (v, onSuccess ba, w'))
   \<and> (admit b now = Some ba \<and> apiCall w = (Settles d (Throws e), w')
        \<and> d < setTimeout_delay (timeout (options b)) \<longrightarrow>
        callExternalModelApi b now apiCall fallback now' w
          = Some (fallback, onFailure ba now', w'))
   \<and> (admit b now = Some ba \<and> apiCall w = (sch, w')
        \<and> race_order (timeout (options b)) sch = TimerFirst late \<longrightarrow>
        callExternalModelApi b now apiCall fallback now' w
          = Some (fallback, onFailure ba now', w'))
   \<and> (admit b now = Some ba \<and> apiCall w = (ThrowsSync e, w') \<longrightarrow>
        callExternalModelApi b now apiCall fallback now' w
          = Some (fallback, onFailure ba now', w'))"
proof (intro conjI impI)
  obtain sch1 w1 where fw: "apiCall w = (sch1, w1)" by (cases "apiCall w") auto
  show "\<exists>v b' w'. callExternalModelApi b now apiCall fallback now' w = Some (v, b', w')"
  proof (cases "admit b now")
    case None
    then show ?thesis by (simp add: callExternalModelApi_def execute_admit)
  next
    case (Some b1)
    show ?thesis
    proof (cases "withTimeout b1 sch1")
      case Pending
      then show ?thesis using withTimeout_settles by blast
    next
      case (Fulfilled v)
      then show ?thesis using Some fw
        by (simp add: callExternalModelApi_def execute_admit attempt_Fulfilled)
    next
      case (Rejected e)
      then show ?thesis using Some fw
        by (simp add: callExternalModelApi_def execute_admit attempt_Rejected)
    qed
  qed
next
  assume "admit b now = None"
  then show "callExternalModelApi b now apiCall fallback now' w = Some (fallback, b, w)"
    by (simp add: callExternalModelApi_def execute_admit)
next
  assume a: "admit b now = Some ba \<and> apiCall w = (Settles d (Returns v), w')
        \<and> d < setTimeout_delay (timeout (options b))"
  then have "options ba = options b" using admit_options by blast
  with a have "withTimeout ba (Settles d (Returns v)) = Fulfilled v"
    by (simp add: withTimeout_Returns)
  with a show "callExternalModelApi b now apiCall fallback now' w = Some (v, onSuccess ba, w')"
    by (simp add: callExternalModelApi_def execute_admit attempt_def)
next
  assume a: "admit b now = Some ba \<and> apiCall w = (Settles d (Throws e), w')
        \<and> d < setTimeout_delay (timeout (options b))"
  then have "options ba = options b" using admit_options by blast
  with a have "withTimeout ba (Settles d (Throws e) :: 'a schedule) = Rejected e"
    by (simp add: withTimeout_Throws)
  with a show "callExternalModelApi b now apiCall fallback now' w
      = Some (fallback, onFailure ba now', w')"
    by (simp add: callExternalModelApi_def execute_admit attempt_def)
next
  assume a: "admit b now = Some ba \<and> apiCall w = (sch, w')
        \<and> race_order (timeout (options b)) sch = TimerFirst late"
  then have "options ba = options b" using admit_options by blast
  with a have "withTimeout ba sch = Rejected timeout_error"
    by (simp add: withTimeout_def timer_first_event)
  with a show "callExternalModelApi b now apiCall fallback now' w
      = Some (fallback, onFailure ba now', w')"
    by (simp add: callExternalModelApi_def execute_admit attempt_def)
next
  assume a: "admit b now = Some ba \<and> apiCall w = (ThrowsSync e, w')"
  then show "callExternalModelApi b now apiCall fallback now' w
      = Some (fallback, onFailure ba now', w')"
    by (simp add: callExternalModelApi_def execute_admit attempt_def
        withTimeout_ThrowsSync)
qed

text \<open>
  The production breaker: rejected while open, a value, an error of the operation, an
  operation that never settles, one that settles after eleven seconds, and one that
  throws before returning a promise.
\<close>

theorem fallback_total_witness:
  "admit (forceOpen modelApiCircuitBreaker 1000) 2000 = None
   \<and> callExternalModelApi (forceOpen modelApiCircuitBreaker 1000) 2000
         (spy (Settles 5 (Returns ''forecast''))) ''default'' 2001 0
       = Some (''default'', forceOpen modelApiCircuitBreaker 1000, 0)
   \<and> admit modelApiCircuitBreaker 10 = Some modelApiCircuitBreaker
   \<and> callExternalModelApi modelApiCircuitBreaker 10
         (spy (Settles 5 (Returns ''forecast''))) ''default'' 15 0
       = Some (''forecast'', onSuccess modelApiCircuitBreaker, Suc 0)
   \<and> callExternalModelApi modelApiCircuitBreaker 10
         (spy (Settles 5 (Throws (Error ''fail'')))) ''default'' 15 0
       = Some (''default'', onFailure modelApiCircuitBreaker 15, Suc 0)
   \<and> callExternalModelApi modelApiCircuitBreaker 10
         (spy Never) ''default'' 10010 0
       = Some (''default'', onFailure modelApiCircuitBreaker 10010, Suc 0)
   \<and> callExternalModelApi modelApiCircuitBreaker 10
         (spy (Settles 11000 (Returns ''forecast''))) ''default'' 10010 0
       = Some (''default'', onFailure modelApiCircuitBreaker 10010, Suc 0)
   \<and> callExternalModelApi modelApiCircuitBreaker 10
         (spy (ThrowsSync (Error ''boom''))) ''default'' 10 0
       = Some (''default'', onFailure modelApiCircuitBreaker 10, Suc 0)"
proof -
  have rej: "admit (forceOpen modelApiCircuitBreaker 1000) 2000 = None"
    by (simp add: admit_def shouldAttemptReset_def breaker_defs)
  have ad: "admit modelApiCircuitBreaker 10 = Some modelApiCircuitBreaker"
    by (simp add: admit_def breaker_defs)
  have to: "timeout (options modelApiCircuitBreaker) = 10000"
    by (simp add: breaker_defs)
  note total = fallback_total [where b = modelApiCircuitBreaker and now = 10
      and ba = modelApiCircuitBreaker and fallback = "''default''" and w = "0::nat"
      and w' = "Suc 0"]
  have 1: "callExternalModelApi (forceOpen modelApiCircuitBreaker 1000) 2000
         (spy (Settles 5 (Returns ''forecast''))) ''default'' 2001 0
       = Some (''default'', forceOpen modelApiCircuitBreaker 1000, 0)"
    using rej fallback_total [where b = "forceOpen modelApiCircuitBreaker 1000" and now = 2000
        and apiCall = "spy (Settles 5 (Returns ''forecast''))" and fallback = "''default''"
        and now' = 2001 and w = "0::nat"]
    by simp
  have 2: "callExternalModelApi modelApiCircuitBreaker 10
         (spy (Settles 5 (Returns ''forecast''))) ''default'' 15 0
       = Some (''forecast'', onSuccess modelApiCircuitBreaker, Suc 0)"
    using ad total [where apiCall = "spy (Settles 5 (Returns ''forecast''))" and now' = 15
        and v = "''forecast''" and d = 5]
    by (simp add: spy_def production_delay)
  have 3: "callExternalModelApi modelApiCircuitBreaker 10
         (spy (Settles 5 (Throws (Error ''fail'')))) ''default'' 15 0
       = Some (''default'', onFailure modelApiCircuitBreaker 15, Suc 0)"
    using ad total [where apiCall = "spy (Settles 5 (Throws (Error ''fail'')))" and now' = 15
        and e = "Error ''fail''" and d = 5]
    by (simp add: spy_def production_delay)
  have 4: "callExternalModelApi modelApiCircuitBreaker 10
         (spy Never) ''default'' 10010 0
       = Some (''default'', onFailure modelApiCircuitBreaker 10010, Suc 0)"
    using ad total [where apiCall = "spy Never" and now' = 10010 and sch = Never
        and late = None]
    by (simp add: spy_def race_order_def)
  have 5: "callExternalModelApi modelApiCircuitBreaker 10
         (spy (Settles 11000 (Returns ''forecast''))) ''default'' 10010 0
       = Some (''default'', onFailure modelApiCircuitBreaker 10010, Suc 0)"
    using ad total [where apiCall = "spy (Settles 11000 (Returns ''forecast''))"
        and now' = 10010 and sch = "Settles 11000 (Returns ''forecast'')"
        and late = "Some (Returns ''forecast'')"]
    by (simp add: spy_def race_order_def production_delay)
  have 6: "callExternalModelApi modelApiCircuitBreaker 10
         (spy (ThrowsSync (Error ''boom''))) ''default'' 10 0
       = Some (''default'', onFailure modelApiCircuitBreaker 10, Suc 0)"
    using ad total [where apiCall = "spy (ThrowsSync (Error ''boom''))" and now' = 10
        and e = "Error ''boom''"]
    by (simp add: spy_def)
  show ?thesis using rej ad 1 2 3 4 5 6 by blast
qed

section \<open>Properties of the cache\<close>

lemmas cache_defs = new_InMemoryCache_def set_cache_def two_entries_def null_entry_def
  Map_get_def Map_delete_def Map_keys_def

lemma Map_get_set: "Map_get (Map_set k v m) k' = (if k' = k then Some v else Map_get m k')"
  by (induction m) (auto simp: Map_get_def)

lemma Map_get_delete:
  "Map_get (snd (Map_delete k m)) k' = (if k' = k then None else Map_get m k')"
  by (induction m) (auto simp: Map_get_def Map_delete_def)

lemma Map_keys_delete: "k \<notin> set (Map_keys (snd (Map_delete k m)))"
  by (auto simp: Map_keys_def Map_delete_def)

lemma Map_keys_set: "set (Map_keys (Map_set k v m)) = insert k (set (Map_keys m))"
  by (induction m) (auto simp: Map_keys_def)

text \<open>The operations keep the keys of the map distinct.\<close>

lemma Map_set_distinct: "distinct (Map_keys m) \<Longrightarrow> distinct (Map_keys (Map_set k v m))"
proof (induction m)
  case Nil
  then show ?case by (simp add: Map_keys_def)
next
  case (Cons p m)
  have "fst p \<notin> set (Map_keys (Map_set k v m))" if "fst p \<noteq> k"
    using that Cons.prems by (simp add: Map_keys_set) (simp add: Map_keys_def)
  then show ?case using Cons by (auto simp: Map_keys_def)
qed

lemma Map_delete_distinct:
  "distinct (Map_keys m) \<Longrightarrow> distinct (Map_keys (snd (Map_delete k m)))"
  by (simp add: Map_keys_def Map_delete_def distinct_map_filter)

lemma Map_get_filter:
  "Map_get (filter (\<lambda>(k, e). \<not> test k) m) k = (if test k then None else Map_get m k)"
  by (induction m) (auto simp: Map_get_def)

lemma invalidate_loop_filter:
  "invalidate_loop test ks m n =
     (filter (\<lambda>p. \<not> (fst p \<in> set ks \<and> test (fst p))) m, n + length (filter test ks))"
proof (induction ks arbitrary: m n)
  case Nil
  then show ?case by simp
next
  case (Cons k ks)
  have "filter (\<lambda>p. \<not> (fst p \<in> set ks \<and> test (fst p))) (filter (\<lambda>p. fst p \<noteq> k) m)
      = filter (\<lambda>p. \<not> (fst p \<in> set (k # ks) \<and> test (fst p))) m" if "test k"
    using that by (induction m) auto
  moreover have "filter (\<lambda>p. \<not> (fst p \<in> set ks \<and> test (fst p))) m
      = filter (\<lambda>p. \<not> (fst p \<in> set (k # ks) \<and> test (fst p))) m" if "\<not> test k"
    using that by (induction m) auto
  ultimately show ?case using Cons.IH by (simp add: Map_delete_def)
qed

lemma invalidatePattern_filter:
  assumes "re p = Some test"
  shows "invalidatePattern re c p =
     Inr (length (filter test (Map_keys (cache c))),
          c\<lparr>cache := filter (\<lambda>(k, e). \<not> test k) (cache c)\<rparr>)"
proof -
  have "filter (\<lambda>p. \<not> (fst p \<in> set (Map_keys (cache c)) \<and> test (fst p))) (cache c)
      = filter (\<lambda>(k, e). \<not> test k) (cache c)"
    by (rule filter_cong) (auto simp: Map_keys_def)
  then show ?thesis using assms
    by (simp add: invalidatePattern_def invalidate_loop_filter)
qed

lemma length_filter_keys:
  "length (filter test (Map_keys m)) = length m - length (filter (\<lambda>(k, e). \<not> test k) m)"
  by (induction m) (auto simp: Map_keys_def Suc_diff_le)

text \<open>
  Claim C4. After \<open>set(k, v, t)\<close> at clock \<open>now\<close> with \<open>t > 0\<close>, and until the clock passes
  \<open>now + t * 1000\<close>, \<open>get(k)\<close> returns \<open>v\<close> and \<open>has(k)\<close> returns true, both leaving the
  cache as it is. \<open>set\<close> stores \<open>v\<close> with \<open>expiresAt = now + t * 1000\<close> under \<open>k\<close>, whatever
  was stored there, and leaves the other keys alone. When the clock has passed the
  \<open>expiresAt\<close> of the entry under \<open>k\<close>, \<open>get(k)\<close> returns \<open>null\<close> and removes the entry from
  the map.
\<close>

theorem set_get_roundtrip:
  fixes c :: "'v InMemoryCache"
  shows
  "(0 < t \<and> now \<le> now' \<and> now' \<le> now + t * 1000 \<longrightarrow>
      get (set_cache c k v t now) k now' = (v, set_cache c k v t now)
      \<and> has (set_cache c k v t now) k now' = (True, set_cache c k v t now))
   \<and> Map_get (cache (set_cache c k v t now)) k = Some \<lparr>data = v, expiresAt = now + t * 1000\<rparr>
   \<and> (k' \<noteq> k \<longrightarrow> Map_get (cache (set_cache c k v t now)) k' = Map_get (cache c) k')
   \<and> (Map_get (cache c) k = Some entry \<and> now > expiresAt entry \<longrightarrow>
        get c k now = (None, c\<lparr>cache := snd (Map_delete k (cache c))\<rparr>)
        \<and> Map_get (cache (snd (get c k now))) k = None
        \<and> k \<notin> set (Map_keys (cache (snd (get c k now)))))"
  by (simp add: get_def has_def set_cache_def Map_get_set Map_get_delete Map_keys_delete)

text \<open>
  \<open>set("k", 7, 1)\<close> at clock 0 over an older entry: read back at once and at clock 1000,
  and gone at clock 1100.
\<close>

theorem set_get_roundtrip_witness:
  "get (set_cache (set_cache (new_InMemoryCache 1) ''k'' (Some 3) 60 0) ''k'' (Some (7::nat)) 1 0)
       ''k'' 0
     = (Some 7, \<lparr>cache = [(''k'', \<lparr>data = Some 7, expiresAt = 1000\<rparr>)], cleanupInterval = Some 1\<rparr>)
   \<and> has (set_cache (new_InMemoryCache 1) ''k'' (Some (7::nat)) 1 0) ''k'' 1000
     = (True, \<lparr>cache = [(''k'', \<lparr>data = Some 7, expiresAt = 1000\<rparr>)], cleanupInterval = Some 1\<rparr>)
   \<and> get (set_cache (new_InMemoryCache 1) ''k'' (Some (7::nat)) 1 0) ''k'' 1100
     = (None, \<lparr>cache = [], cleanupInterval = Some 1\<rparr>)
   \<and> Map_get (cache (set_cache two_entries ''k'' (Some 7) 1 0)) ''metrics:1''
     = Some \<lparr>data = Some 2, expiresAt = 60000\<rparr>"
proof -
  let ?c = "set_cache (new_InMemoryCache 1) ''k'' (Some (7::nat)) 1 0"
  have c: "?c = \<lparr>cache = [(''k'', \<lparr>data = Some 7, expiresAt = 1000\<rparr>)], cleanupInterval = Some 1\<rparr>"
    "set_cache (set_cache (new_InMemoryCache 1) ''k'' (Some 3) 60 0) ''k'' (Some (7::nat)) 1 0
      = \<lparr>cache = [(''k'', \<lparr>data = Some 7, expiresAt = 1000\<rparr>)], cleanupInterval = Some 1\<rparr>"
    by (simp_all add: cache_defs)
  have 1: "get (set_cache (set_cache (new_InMemoryCache 1) ''k'' (Some 3) 60 0) ''k''
        (Some (7::nat)) 1 0) ''k'' 0
     = (Some 7, \<lparr>cache = [(''k'', \<lparr>data = Some 7, expiresAt = 1000\<rparr>)], cleanupInterval = Some 1\<rparr>)"
    using set_get_roundtrip [where c = "set_cache (new_InMemoryCache 1) ''k'' (Some 3) 60 0"
        and k = "''k''" and v = "Some (7::nat)" and t = 1 and now = 0 and now' = 0] c
    by simp
  have 2: "has ?c ''k'' 1000
     = (True, \<lparr>cache = [(''k'', \<lparr>data = Some 7, expiresAt = 1000\<rparr>)], cleanupInterval = Some 1\<rparr>)"
    using set_get_roundtrip [where c = "new_InMemoryCache 1" and k = "''k''"
        and v = "Some (7::nat)" and t = 1 and now = 0 and now' = 1000] c
    by simp
  have 3: "get ?c ''k'' 1100 = (None, \<lparr>cache = [], cleanupInterval = Some 1\<rparr>)"
    using set_get_roundtrip [where c = ?c and k = "''k''" and now = 1100
        and entry = "\<lparr>data = Some 7, expiresAt = 1000\<rparr>"] c
    by (simp add: Map_get_def Map_delete_def)
  have 4: "Map_get (cache (set_cache two_entries ''k'' (Some 7) 1 0)) ''metrics:1''
     = Some \<lparr>data = Some 2, expiresAt = 60000\<rparr>"
    using set_get_roundtrip [where c = two_entries and k = "''k''" and k' = "''metrics:1''"
        and v = "Some 7" and t = 1 and now = 0]
    by (simp add: two_entries_def new_InMemoryCache_def set_cache_def Map_get_def)
  show ?thesis using 1 2 3 4 by blast
qed

lemma has_get_same_cache: "snd (has c k now) = snd (get c k now)"
  by (simp add: has_def get_def split: option.splits)

lemma has_get_agree_unless_null:
  "(\<forall>entry. Map_get (cache c) k = Some entry \<longrightarrow> data entry \<noteq> None) \<Longrightarrow>
   fst (has c k now) = (fst (get c k now) \<noteq> None)"
  by (auto simp: has_def get_def split: option.splits)

text \<open>
  Claim C5 says that \<open>has(k)\<close> is \<open>get(k) != null\<close> for every stored value, with the same
  effect on the cache. The effect on the cache is the same in every case, and the results
  agree for every stored value other than \<open>null\<close> (the two lemmas above). For a stored
  \<open>null\<close> the code does otherwise: after \<open>set("k", null)\<close> at clock 1000, at the same clock
  \<open>has("k")\<close> is true and \<open>get("k")\<close> is \<open>null\<close>. The cache of the unit test
  (tests/unit/cache.test.ts) defines \<open>has\<close> as \<open>this.get(key) !== null\<close>.
\<close>

theorem has_true_get_null:
  "has null_entry ''k'' 1000 = (True, null_entry)
   \<and> get null_entry ''k'' 1000 = (None, null_entry)"
  by (simp add: has_def get_def cache_defs)

text \<open>
  Claim C7. For a pattern that compiles, \<open>invalidatePattern\<close> returns normally; the map it
  leaves is the old one without the entries whose key matches, in the old order, so
  every key that does not match keeps its entry and every key that matches has none;
  the sweep timer is not touched; the count is the number of keys of the old map that
  match, which is the number of entries removed.
\<close>

theorem invalidatePattern_exact:
  fixes c :: "'v InMemoryCache"
  shows
  "re p = Some test \<longrightarrow>
     (\<exists>n c'. invalidatePattern re c p = Inr (n, c')
        \<and> cache c' = filter (\<lambda>(k, e). \<not> test k) (cache c)
        \<and> cleanupInterval c' = cleanupInterval c
        \<and> (\<forall>k. Map_get (cache c') k = (if test k then None else Map_get (cache c) k))
        \<and> n = length (filter test (Map_keys (cache c)))
        \<and> n = length (cache c) - length (cache c'))"
  by (simp add: invalidatePattern_filter Map_get_filter length_filter_keys)

text \<open>Two entries, one of them under a key that starts with \<open>campaigns:\<close>.\<close>

theorem invalidatePattern_exact_witness:
  "toy_RegExp ''campaigns:'' = Some (starts_with ''campaigns:'')
   \<and> invalidatePattern toy_RegExp two_entries ''campaigns:''
     = Inr (1, \<lparr>cache = [(''metrics:1'', \<lparr>data = Some 2, expiresAt = 60000\<rparr>)],
               cleanupInterval = Some 1\<rparr>)"
proof -
  have re: "toy_RegExp ''campaigns:'' = Some (starts_with ''campaigns:'')"
    by (simp add: toy_RegExp_def)
  have c: "two_entries = \<lparr>cache = [(''campaigns:1'', \<lparr>data = Some 1, expiresAt = 60000\<rparr>),
      (''metrics:1'', \<lparr>data = Some 2, expiresAt = 60000\<rparr>)], cleanupInterval = Some 1\<rparr>"
    by (simp add: cache_defs)
  from invalidatePattern_exact [where re = toy_RegExp and p = "''campaigns:''"
      and test = "starts_with ''campaigns:''" and c = two_entries] re
  obtain n c' where r: "invalidatePattern toy_RegExp two_entries ''campaigns:'' = Inr (n, c')"
    "cache c' = filter (\<lambda>(k, e). \<not> starts_with ''campaigns:'' k) (cache two_entries)"
    "cleanupInterval c' = cleanupInterval two_entries"
    "n = length (filter (starts_with ''campaigns:'') (Map_keys (cache two_entries)))"
    by blast
  have "n = 1" using r(4) by (simp add: c Map_keys_def starts_with_def)
  moreover have "c' = \<lparr>cache = [(''metrics:1'', \<lparr>data = Some 2, expiresAt = 60000\<rparr>)],
               cleanupInterval = Some 1\<rparr>"
    using r(2,3) by (cases c') (simp add: c starts_with_def)
  ultimately show ?thesis using re r(1) by simp
qed

text \<open>
  Claim C9. A call of \<open>set\<close>, \<open>get\<close>, \<open>has\<close>, \<open>delete\<close>, \<open>clear\<close>, \<open>stats\<close> or \<open>destroy\<close>
  returns, for every cache, clock and argument. \<open>invalidatePattern\<close> returns a count when
  its pattern compiles; when the pattern does not compile, the error of \<open>new RegExp\<close>
  reaches the caller.
\<close>

theorem cache_total:
  fixes c :: "'v InMemoryCache"
  shows
  "((\<forall>p. op \<noteq> InvalidatePattern p) \<longrightarrow> (\<exists>r c'. call re c now op = Inr (r, c')))
   \<and> (re p = Some test \<longrightarrow> (\<exists>n c'. call re c now (InvalidatePattern p) = Inr (Number n, c')))
   \<and> (re p = None \<longrightarrow> call re c now (InvalidatePattern p) = Inl (SyntaxError p))"
proof (intro conjI impI)
  assume "\<forall>p. op \<noteq> InvalidatePattern p"
  then show "\<exists>r c'. call re c now op = Inr (r, c')"
    by (cases op) (auto simp: call_def split: prod.splits)
next
  assume "re p = Some test"
  then show "\<exists>n c'. call re c now (InvalidatePattern p) = Inr (Number n, c')"
    by (simp add: call_def invalidatePattern_filter)
next
  assume "re p = None"
  then show "call re c now (InvalidatePattern p) = Inl (SyntaxError p)"
    by (simp add: call_def invalidatePattern_def)
qed

text \<open>A \<open>get\<close> that returns, a pattern that compiles and the malformed pattern \<open>(\<close>.\<close>

theorem cache_total_witness:
  "(\<exists>r c'. call toy_RegExp two_entries 5 (Get ''metrics:1'') = Inr (r, c'))
   \<and> toy_RegExp ''metrics:'' = Some (starts_with ''metrics:'')
   \<and> (\<exists>n c'. call toy_RegExp two_entries 5 (InvalidatePattern ''metrics:'')
         = Inr (Number n, c'))
   \<and> toy_RegExp ''('' = None
   \<and> call toy_RegExp two_entries 5 (InvalidatePattern ''('') = Inl (SyntaxError ''('')"
proof -
  have re: "toy_RegExp ''metrics:'' = Some (starts_with ''metrics:'')" "toy_RegExp ''('' = None"
    by (simp_all add: toy_RegExp_def)
  have 1: "\<exists>r c'. call toy_RegExp two_entries 5 (Get ''metrics:1'') = Inr (r, c')"
    using cache_total [where op = "Get ''metrics:1''" and re = toy_RegExp and c = two_entries
        and now = 5]
    by simp
  have 2: "\<exists>n c'. call toy_RegExp two_entries 5 (InvalidatePattern ''metrics:'')
         = Inr (Number n, c')"
    using cache_total [where re = toy_RegExp and c = two_entries and now = 5
        and p = "''metrics:''" and test = "starts_with ''metrics:''"] re
    by simp
  have 3: "call toy_RegExp two_entries 5 (InvalidatePattern ''('') = Inl (SyntaxError ''('')"
    using cache_total [where re = toy_RegExp and c = two_entries and now = 5
        and p = "''(''"] re
    by simp
  show ?thesis using re 1 2 3 by blast
qed

end
